theory Spec2Isabelle
  imports Main
begin

section \<open>Knight attack table generator (scripts/knights.py)\<close>

text \<open>
  The script builds, for each of the 64 squares of a chess board, a list of 64 zeros
  and ones marking the squares a knight reaches from there, turns each list into the
  integer whose binary digits it holds, and prints the 64 integers as hexadecimal
  literals. Python integers are unbounded, so they are modelled by \<^typ>\<open>int\<close>;
  an exception is a value of a sum type.
\<close>

subsection \<open>Python primitives used by the script\<close>

datatype py_error = IndexError | ValueError

text \<open>\<^verbatim>\<open>range(n)\<close> for an integer bound.\<close>

definition py_range :: "int \<Rightarrow> int list" where
  "py_range n = [0..n - 1]"

text \<open>\<^verbatim>\<open>itertools.product(xs, ys)\<close>: the rightmost component advances fastest.\<close>

fun itertools_product :: "'a list \<Rightarrow> 'b list \<Rightarrow> ('a \<times> 'b) list" where
  "itertools_product [] ys = []"
| "itertools_product (x # xs) ys = map (\<lambda>y. (x, y)) ys @ itertools_product xs ys"

text \<open>
  \<^verbatim>\<open>li[i] = v\<close> on a list: a negative index counts from the end, and an index outside
  \<open>[-len, len)\<close> raises IndexError.
\<close>

definition set_item :: "'a list \<Rightarrow> int \<Rightarrow> 'a \<Rightarrow> py_error + 'a list" where
  "set_item li i v =
     (let n = int (length li); j = (if i < 0 then n + i else i)
      in if 0 \<le> j \<and> j < n then Inr (li[nat j := v]) else Inl IndexError)"

text \<open>\<^verbatim>\<open>enumerate(li)\<close>: the elements paired with their positions, from 0.\<close>

definition py_enumerate :: "'a list \<Rightarrow> (nat \<times> 'a) list" where
  "py_enumerate li = zip [0..<length li] li"

text \<open>
  \<^verbatim>\<open>hex(n)\<close>: the prefix \<open>0x\<close>, after a minus sign for a negative number, and the
  lowercase hexadecimal digits of the magnitude without leading zeros (\<open>0x0\<close> for 0).
\<close>

definition hex_digit :: "int \<Rightarrow> char" where
  "hex_digit d = ''0123456789abcdef'' ! nat (d mod 16)"

function hex_digits :: "int \<Rightarrow> string" where
  "hex_digits n = (if n < 16 then [hex_digit n] else hex_digits (n div 16) @ [hex_digit (n mod 16)])"
  by pat_completeness auto
termination
  by (relation "measure nat") auto

declare hex_digits.simps [simp del]

definition hex :: "int \<Rightarrow> string" where
  "hex n = (if n < 0 then ''-0x'' @ hex_digits (- n) else ''0x'' @ hex_digits n)"

text \<open>\<^verbatim>\<open>sep.join(xs)\<close> on a list of strings.\<close>

fun str_join :: "string \<Rightarrow> string list \<Rightarrow> string" where
  "str_join sep [] = []"
| "str_join sep [s] = s"
| "str_join sep (s # t # ts) = s @ sep @ str_join sep (t # ts)"

subsection \<open>The script\<close>

definition is_valid_square :: "int \<Rightarrow> int \<Rightarrow> bool" where
  "is_valid_square y x = (y \<ge> 0 \<and> y < 8 \<and> x \<ge> 0 \<and> x < 8)"

definition list_to_hex :: "int list \<Rightarrow> string" where
  "list_to_hex li = hex (sum_list (map (\<lambda>t. snd t * (2 ^ fst t)) (py_enumerate li)))"

text \<open>
  One of the two inner loops of \<^verbatim>\<open>generate_patterns\<close>:
  \<^verbatim>\<open>for dy, dx in offsets: if is_valid_square(y + dy, x + dx): pattern[idx] = 1\<close>.
  The list assignment is the only statement that can raise.
\<close>

fun mark_offsets :: "int \<Rightarrow> int \<Rightarrow> (int \<times> int) list \<Rightarrow> int list \<Rightarrow> py_error + int list" where
  "mark_offsets y x [] pattern = Inr pattern"
| "mark_offsets y x ((dy, dx) # rest) pattern =
     (if is_valid_square (y + dy) (x + dx) then
        (let idx = (y + dy) * 8 + (x + dx) in
         case set_item pattern idx 1 of
           Inl e \<Rightarrow> Inl e
         | Inr pattern' \<Rightarrow> mark_offsets y x rest pattern')
      else mark_offsets y x rest pattern)"

text \<open>The body of the loop over \<open>x\<close>: the pattern of the square \<open>(y, x)\<close>.\<close>

definition square_pattern :: "int \<Rightarrow> int \<Rightarrow> py_error + int list" where
  "square_pattern y x =
     (case mark_offsets y x (itertools_product [- 2, 2] [- 1, 1]) (replicate 64 0) of
        Inl e \<Rightarrow> Inl e
      | Inr pattern \<Rightarrow> mark_offsets y x (itertools_product [- 1, 1] [- 2, 2]) pattern)"

text \<open>\<^verbatim>\<open>for x in range(8)\<close>, appending to \<open>patterns\<close>.\<close>

fun loop_x :: "int \<Rightarrow> int list \<Rightarrow> int list list \<Rightarrow> py_error + int list list" where
  "loop_x y [] patterns = Inr patterns"
| "loop_x y (x # xs) patterns =
     (case square_pattern y x of
        Inl e \<Rightarrow> Inl e
      | Inr pattern \<Rightarrow> loop_x y xs (patterns @ [pattern]))"

text \<open>\<^verbatim>\<open>for y in range(8)\<close>.\<close>

fun loop_y :: "int list \<Rightarrow> int list list \<Rightarrow> py_error + int list list" where
  "loop_y [] patterns = Inr patterns"
| "loop_y (y # ys) patterns =
     (case loop_x y (py_range 8) patterns of
        Inl e \<Rightarrow> Inl e
      | Inr patterns' \<Rightarrow> loop_y ys patterns')"

text \<open>The value of \<open>patterns\<close> when the loops of \<^verbatim>\<open>generate_patterns\<close> are over.\<close>

definition build_patterns :: "py_error + int list list" where
  "build_patterns = loop_y (py_range 8) []"

definition generate_patterns :: "py_error + string list" where
  "generate_patterns =
     (case build_patterns of
        Inl e \<Rightarrow> Inl e
      | Inr patterns \<Rightarrow> Inr (map list_to_hex patterns))"

text \<open>
  The main block: what \<^verbatim>\<open>print(', '.join(generate_patterns()))\<close> writes to standard
  output, the joined line and the line feed \<^verbatim>\<open>print\<close> adds.
\<close>

definition main_stdout :: "py_error + string" where
  "main_stdout =
     (case generate_patterns of
        Inl e \<Rightarrow> Inl e
      | Inr tokens \<Rightarrow> Inr (str_join '', '' tokens @ [CHR 0x0A]))"

subsection \<open>Notions used to state the properties of the table\<close>

text \<open>
  The integer that \<^verbatim>\<open>list_to_hex\<close> hands to \<^verbatim>\<open>hex\<close>: the reachability mask of a
  pattern, the sum of \<open>2 ^ i\<close> over the positions \<open>i\<close> that hold a one.
\<close>

definition mask_of :: "int list \<Rightarrow> int" where
  "mask_of li = sum_list (map (\<lambda>t. snd t * (2 ^ fst t)) (py_enumerate li))"

text \<open>The table of masks: the integers behind the strings of \<^verbatim>\<open>generate_patterns\<close>.\<close>

definition table_masks :: "py_error + int list" where
  "table_masks =
     (case build_patterns of
        Inl e \<Rightarrow> Inl e
      | Inr patterns \<Rightarrow> Inr (map mask_of patterns))"

text \<open>The eight offsets, in the order the two inner loops visit them.\<close>

definition knight_offsets :: "(int \<times> int) list" where
  "knight_offsets = itertools_product [- 2, 2] [- 1, 1] @ itertools_product [- 1, 1] [- 2, 2]"

text \<open>
  Square \<open>i\<close> is the target of one of the offsets from \<open>(y, x)\<close>, and that target is on
  the board.
\<close>

definition lands_on :: "int \<Rightarrow> int \<Rightarrow> (int \<times> int) list \<Rightarrow> nat \<Rightarrow> bool" where
  "lands_on y x offsets i =
     list_ex (\<lambda>(dy, dx). is_valid_square (y + dy) (x + dx) \<and> int i = (y + dy) * 8 + (x + dx))
       offsets"

definition knight_bits :: "int \<Rightarrow> int \<Rightarrow> int list" where
  "knight_bits y x = map (\<lambda>i. if lands_on y x knight_offsets i then 1 else 0) [0..<64]"

text \<open>The number of ones in the binary expansion of a non-negative integer.\<close>

function popcount :: "int \<Rightarrow> nat" where
  "popcount m = (if m \<le> 0 then 0 else nat (m mod 2) + popcount (m div 2))"
  by pat_completeness auto
termination
  by (relation "measure nat") auto

declare popcount.simps [simp del]

text \<open>
  Reading the output back. \<^verbatim>\<open>s.split(sep)\<close> cuts \<open>s\<close> at every occurrence of \<open>sep\<close>,
  scanning from the left, and raises ValueError for the empty separator.
\<close>

function split_from :: "string \<Rightarrow> string \<Rightarrow> string \<Rightarrow> string list" where
  "split_from sep cur [] = [cur]"
| "split_from sep cur (c # cs) =
     (if sep \<noteq> [] \<and> take (length sep) (c # cs) = sep
      then cur # split_from sep [] (drop (length sep) (c # cs))
      else split_from sep (cur @ [c]) cs)"
  by pat_completeness auto
termination
  by (relation "measure (\<lambda>(sep, cur, s). length s)") auto

definition str_split :: "string \<Rightarrow> string \<Rightarrow> py_error + string list" where
  "str_split s sep = (if sep = [] then Inl ValueError else Inr (split_from sep [] s))"

text \<open>A token of the form \<^verbatim>\<open>0x[0-9a-f]+\<close>, and the number it denotes.\<close>

definition is_hex_char :: "char \<Rightarrow> bool" where
  "is_hex_char c = (c \<in> set ''0123456789abcdef'')"

definition is_hex_literal :: "string \<Rightarrow> bool" where
  "is_hex_literal tok =
     (take 2 tok = ''0x'' \<and> drop 2 tok \<noteq> [] \<and> list_all is_hex_char (drop 2 tok))"

definition hex_value :: "char \<Rightarrow> int" where
  "hex_value c = int (length (takeWhile (\<lambda>d. d \<noteq> c) ''0123456789abcdef''))"

definition parse_hex :: "string \<Rightarrow> int option" where
  "parse_hex tok =
     (if is_hex_literal tok
      then Some (foldl (\<lambda>acc c. 16 * acc + hex_value c) 0 (drop 2 tok))
      else None)"

text \<open>The 64 patterns in the order the loops append them, rank by rank.\<close>

definition table_patterns :: "int list list" where
  "table_patterns = concat (map (\<lambda>y. map (knight_bits y) (py_range 8)) (py_range 8))"

text \<open>The values of the 64 masks, as literals.\<close>

definition knight_table :: "int list" where
  "knight_table =
     [0x20400, 0x50800, 0xA1100, 0x142200, 0x284400, 0x508800, 0xA01000, 0x402000,
      0x2040004, 0x5080008, 0xA110011, 0x14220022, 0x28440044, 0x50880088, 0xA0100010, 0x40200020,
      0x204000402, 0x508000805, 0xA1100110A, 0x1422002214, 0x2844004428, 0x5088008850, 0xA0100010A0, 0x4020002040,
      0x20400040200, 0x50800080500, 0xA1100110A00, 0x142200221400, 0x284400442800, 0x508800885000, 0xA0100010A000, 0x402000204000,
      0x2040004020000, 0x5080008050000, 0xA1100110A0000, 0x14220022140000, 0x28440044280000, 0x50880088500000, 0xA0100010A00000, 0x40200020400000,
      0x204000402000000, 0x508000805000000, 0xA1100110A000000, 0x1422002214000000, 0x2844004428000000, 0x5088008850000000, 0xA0100010A0000000, 0x4020002040000000,
      0x400040200000000, 0x800080500000000, 0x1100110A00000000, 0x2200221400000000, 0x4400442800000000, 0x8800885000000000, 0x100010A000000000, 0x2000204000000000,
      0x4020000000000, 0x8050000000000, 0x110A0000000000, 0x22140000000000, 0x44280000000000, 0x88500000000000, 0x10A00000000000, 0x20400000000000]"

section \<open>The patterns the loops build\<close>

lemma set_item_in_range:
  "0 \<le> i \<Longrightarrow> i < int (length li) \<Longrightarrow> set_item li i v = Inr (li[nat i := v])"
  by (simp add: set_item_def)

lemma valid_square_index:
  "is_valid_square y x \<Longrightarrow> 0 \<le> y * 8 + x \<and> y * 8 + x < 64"
  by (auto simp: is_valid_square_def)

lemma lands_on_Nil: "lands_on y x [] i = False"
  by (simp add: lands_on_def)

lemma lands_on_Cons:
  "lands_on y x ((dy, dx) # rest) i =
     ((is_valid_square (y + dy) (x + dx) \<and> int i = (y + dy) * 8 + (x + dx)) \<or> lands_on y x rest i)"
  by (simp add: lands_on_def)

lemma lands_on_append:
  "lands_on y x (as @ bs) i = (lands_on y x as i \<or> lands_on y x bs i)"
  by (simp add: lands_on_def)

text \<open>
  An inner loop never raises on a pattern of length 64: the guard keeps the index inside
  the list. It writes a one at every target on the board and leaves the rest alone.
\<close>

lemma mark_offsets_result:
  "length p = 64 \<Longrightarrow>
   \<exists>p'. mark_offsets y x offsets p = Inr p' \<and> length p' = 64 \<and>
        (\<forall>i<64. p' ! i = (if lands_on y x offsets i then 1 else p ! i))"
proof (induction offsets arbitrary: p)
  case Nil
  then show ?case by (simp add: lands_on_Nil)
next
  case (Cons off rest)
  obtain dy dx where off: "off = (dy, dx)" by (cases off)
  show ?case
  proof (cases "is_valid_square (y + dy) (x + dx)")
    case False
    with Cons.IH [OF Cons.prems] show ?thesis
      by (simp add: off lands_on_Cons)
  next
    case True
    let ?idx = "(y + dy) * 8 + (x + dx)"
    from True have range: "0 \<le> ?idx" "?idx < 64"
      using valid_square_index by blast+
    with Cons.prems have set: "set_item p ?idx 1 = Inr (p[nat ?idx := 1])"
      by (simp add: set_item_in_range)
    from Cons.prems have len: "length (p[nat ?idx := 1]) = 64" by simp
    from Cons.IH [OF len] obtain p' where
      run: "mark_offsets y x rest (p[nat ?idx := 1]) = Inr p'" and
      len': "length p' = 64" and
      nth: "\<forall>i<64. p' ! i = (if lands_on y x rest i then 1 else p[nat ?idx := 1] ! i)"
      by blast
    have "mark_offsets y x (off # rest) p = Inr p'"
      using True set run by (simp add: off)
    moreover have "\<forall>i<64. p' ! i = (if lands_on y x (off # rest) i then 1 else p ! i)"
    proof (intro allI impI)
      fix i :: nat assume i: "i < 64"
      have eq: "(int i = ?idx) = (i = nat ?idx)" using range by auto
      show "p' ! i = (if lands_on y x (off # rest) i then 1 else p ! i)"
        using nth i True Cons.prems range
        by (auto simp: off lands_on_Cons eq nth_list_update)
    qed
    ultimately show ?thesis using len' by blast
  qed
qed

lemma square_pattern_eq: "square_pattern y x = Inr (knight_bits y x)"
proof -
  let ?a = "itertools_product [- 2, 2] [- 1, 1]" and ?b = "itertools_product [- 1, 1] [- 2, 2]"
  have "length (replicate 64 (0::int)) = 64" by simp
  from mark_offsets_result [OF this, of y x ?a] obtain p where
    p: "mark_offsets y x ?a (replicate 64 0) = Inr p" "length p = 64"
       "\<forall>i<64. p ! i = (if lands_on y x ?a i then 1 else replicate 64 0 ! i)"
    by blast
  from mark_offsets_result [OF p(2), of y x ?b] obtain q where
    q: "mark_offsets y x ?b p = Inr q" "length q = 64"
       "\<forall>i<64. q ! i = (if lands_on y x ?b i then 1 else p ! i)"
    by blast
  have "q = knight_bits y x"
  proof (rule nth_equalityI)
    show "length q = length (knight_bits y x)" using q(2) by (simp add: knight_bits_def)
  next
    fix i assume "i < length q"
    then have i: "i < 64" using q(2) by simp
    then show "q ! i = knight_bits y x ! i"
      using p(3) q(3) unfolding knight_bits_def knight_offsets_def lands_on_append
      by (simp del: upt_Suc)
  qed
  with p(1) q(1) show ?thesis by (simp add: square_pattern_def)
qed

lemma loop_x_eq: "loop_x y xs patterns = Inr (patterns @ map (knight_bits y) xs)"
  by (induction xs arbitrary: patterns) (simp_all add: square_pattern_eq)

lemma loop_y_eq:
  "loop_y ys patterns = Inr (patterns @ concat (map (\<lambda>y. map (knight_bits y) (py_range 8)) ys))"
  by (induction ys arbitrary: patterns) (simp_all add: loop_x_eq)

lemma build_patterns_eq:
  "build_patterns = Inr (concat (map (\<lambda>y. map (knight_bits y) (py_range 8)) (py_range 8)))"
  by (simp add: build_patterns_def loop_y_eq)

section \<open>Masks and the table\<close>

lemma mask_of_Nil: "mask_of [] = 0"
  by (simp add: mask_of_def py_enumerate_def)

lemma py_enumerate_Cons:
  "py_enumerate (b # li) = (0, b) # map (\<lambda>t. (Suc (fst t), snd t)) (py_enumerate li)"
proof -
  have "[0..<length (b # li)] = 0 # map Suc [0..<length li]"
    by (simp add: upt_conv_Cons map_Suc_upt del: upt_Suc)
  then show ?thesis
    by (simp add: py_enumerate_def zip_map1 case_prod_beta)
qed

lemma mask_of_Cons: "mask_of (b # li) = b + 2 * mask_of li"
proof -
  have "(\<lambda>t::nat \<times> int. snd t * (2 * 2 ^ fst t)) = (\<lambda>t. 2 * (snd t * 2 ^ fst t))"
    by (simp add: fun_eq_iff)
  then show ?thesis
    by (simp add: mask_of_def py_enumerate_Cons comp_def sum_list_const_mult)
qed


lemma bit_mask_of:
  "set li \<subseteq> {0, 1} \<Longrightarrow> bit (mask_of li) i = (i < length li \<and> li ! i = 1)"
proof (induction li arbitrary: i)
  case Nil
  then show ?case by (simp add: mask_of_Nil)
next
  case (Cons b li)
  then have b: "b = 0 \<or> b = 1" and rest: "set li \<subseteq> {0, 1}" by auto
  show ?case
  proof (cases i)
    case 0
    with b show ?thesis by (auto simp: mask_of_Cons bit_0)
  next
    case (Suc k)
    from b have "(b + 2 * mask_of li) div 2 = mask_of li" by auto
    with Suc Cons.IH [OF rest, of k] show ?thesis
      by (simp add: mask_of_Cons bit_Suc)
  qed
qed

lemma knight_bits_length: "length (knight_bits y x) = 64"
  by (simp add: knight_bits_def)

lemma knight_bits_binary: "set (knight_bits y x) \<subseteq> {0, 1}"
  by (auto simp: knight_bits_def)

lemma knight_bits_nth:
  "i < 64 \<Longrightarrow> knight_bits y x ! i = (if lands_on y x knight_offsets i then 1 else 0)"
  by (simp add: knight_bits_def del: upt_Suc)

lemma bit_knight_mask:
  "bit (mask_of (knight_bits y x)) i = (i < 64 \<and> lands_on y x knight_offsets i)"
  using knight_bits_nth [of i y x]
  by (auto simp: bit_mask_of [OF knight_bits_binary] knight_bits_length split: if_splits)

lemma py_range_8: "py_range 8 = map int [0..<8]"
  by code_simp

lemma concat_rows_nth:
  "\<forall>r\<in>set rows. length r = n \<Longrightarrow> i < length rows \<Longrightarrow> j < n \<Longrightarrow>
   concat rows ! (i * n + j) = rows ! i ! j"
proof (induction rows arbitrary: i)
  case Nil
  then show ?case by simp
next
  case (Cons r rows)
  show ?case
  proof (cases i)
    case 0
    with Cons.prems show ?thesis by (simp add: nth_append)
  next
    case (Suc k)
    have "concat (r # rows) ! (n + (k * n + j)) = concat rows ! (k * n + j)"
      using Cons.prems(1) by (simp add: nth_append)
    with Suc Cons.IH [of k] Cons.prems show ?thesis
      by (simp add: add.assoc)
  qed
qed

lemma table_patterns_length: "length table_patterns = 64"
  by (simp add: table_patterns_def py_range_8 length_concat comp_def sum_list_triv del: upt_Suc)

lemma table_patterns_nth:
  assumes "r < 8" "f < 8"
  shows "table_patterns ! (r * 8 + f) = knight_bits (int r) (int f)"
proof -
  let ?rows = "map (\<lambda>y. map (knight_bits y) (py_range 8)) (py_range 8)"
  have "\<forall>row\<in>set ?rows. length row = 8" by (simp add: py_range_8 del: upt_Suc)
  moreover have "r < length ?rows" using assms by (simp add: py_range_8 del: upt_Suc)
  ultimately have "concat ?rows ! (r * 8 + f) = ?rows ! r ! f"
    using assms(2) by (rule concat_rows_nth)
  also have "\<dots> = knight_bits (int r) (int f)"
    using assms by (simp add: py_range_8 del: upt_Suc)
  finally show ?thesis by (simp add: table_patterns_def)
qed


lemma build_patterns_table: "build_patterns = Inr table_patterns"
  by (simp add: build_patterns_eq table_patterns_def)

lemma table_masks_eq: "table_masks = Inr (map mask_of table_patterns)"
  by (simp add: table_masks_def build_patterns_table)

lemma generate_patterns_eq: "generate_patterns = Inr (map list_to_hex table_patterns)"
  by (simp add: generate_patterns_def build_patterns_table)

section \<open>The knight relation behind the bits\<close>

lemma knight_offsets_eval:
  "knight_offsets = [(- 2, - 1), (- 2, 1), (2, - 1), (2, 1), (- 1, - 2), (- 1, 2), (1, - 2), (1, 2)]"
  by (simp add: knight_offsets_def)

lemma lands_on_set:
  "lands_on y x offsets i =
     (\<exists>(dy, dx)\<in>set offsets. is_valid_square (y + dy) (x + dx) \<and> int i = (y + dy) * 8 + (x + dx))"
  by (simp add: lands_on_def list_ex_iff)

lemma lands_on_less: "lands_on y x offsets i \<Longrightarrow> i < 64"
  using valid_square_index by (fastforce simp: lands_on_set)











lemma knight_offsets_set:
  "set knight_offsets =
     {(- 2, - 1), (- 2, 1), (2, - 1), (2, 1), (- 1, - 2), (- 1, 2), (1, - 2), (1, 2)}"
  by (simp add: knight_offsets_eval)

section \<open>The table evaluated, and the number of set bits\<close>

lemma py_range_8_eval: "py_range 8 = [0, 1, 2, 3, 4, 5, 6, 7]"
  by code_simp

lemma table_rank_0:
  "map (\<lambda>x. mask_of (knight_bits 0 x)) [0, 1, 2, 3, 4, 5, 6, 7] =
     [0x20400, 0x50800, 0xA1100, 0x142200, 0x284400, 0x508800, 0xA01000, 0x402000]"
  by code_simp

lemma table_rank_1:
  "map (\<lambda>x. mask_of (knight_bits 1 x)) [0, 1, 2, 3, 4, 5, 6, 7] =
     [0x2040004, 0x5080008, 0xA110011, 0x14220022, 0x28440044, 0x50880088, 0xA0100010, 0x40200020]"
  by code_simp

lemma table_rank_2:
  "map (\<lambda>x. mask_of (knight_bits 2 x)) [0, 1, 2, 3, 4, 5, 6, 7] =
     [0x204000402, 0x508000805, 0xA1100110A, 0x1422002214, 0x2844004428, 0x5088008850, 0xA0100010A0, 0x4020002040]"
  by code_simp

lemma table_rank_3:
  "map (\<lambda>x. mask_of (knight_bits 3 x)) [0, 1, 2, 3, 4, 5, 6, 7] =
     [0x20400040200, 0x50800080500, 0xA1100110A00, 0x142200221400, 0x284400442800, 0x508800885000, 0xA0100010A000, 0x402000204000]"
  by code_simp

lemma table_rank_4:
  "map (\<lambda>x. mask_of (knight_bits 4 x)) [0, 1, 2, 3, 4, 5, 6, 7] =
     [0x2040004020000, 0x5080008050000, 0xA1100110A0000, 0x14220022140000, 0x28440044280000, 0x50880088500000, 0xA0100010A00000, 0x40200020400000]"
  by code_simp

lemma table_rank_5:
  "map (\<lambda>x. mask_of (knight_bits 5 x)) [0, 1, 2, 3, 4, 5, 6, 7] =
     [0x204000402000000, 0x508000805000000, 0xA1100110A000000, 0x1422002214000000, 0x2844004428000000, 0x5088008850000000, 0xA0100010A0000000, 0x4020002040000000]"
  by code_simp

lemma table_rank_6:
  "map (\<lambda>x. mask_of (knight_bits 6 x)) [0, 1, 2, 3, 4, 5, 6, 7] =
     [0x400040200000000, 0x800080500000000, 0x1100110A00000000, 0x2200221400000000, 0x4400442800000000, 0x8800885000000000, 0x100010A000000000, 0x2000204000000000]"
  by code_simp

lemma table_rank_7:
  "map (\<lambda>x. mask_of (knight_bits 7 x)) [0, 1, 2, 3, 4, 5, 6, 7] =
     [0x4020000000000, 0x8050000000000, 0x110A0000000000, 0x22140000000000, 0x44280000000000, 0x88500000000000, 0x10A00000000000, 0x20400000000000]"
  by code_simp

lemma table_masks_value: "map mask_of table_patterns = knight_table"
  using table_rank_0 table_rank_1 table_rank_2 table_rank_3
    table_rank_4 table_rank_5 table_rank_6 table_rank_7
  by (simp add: table_patterns_def py_range_8_eval knight_table_def)

lemma bit_set_step:
  fixes m :: int
  shows "{i. bit m i} = (if odd m then {0} else {}) \<union> Suc ` {i. bit (m div 2) i}"
proof (rule set_eqI)
  fix i
  show "i \<in> {i. bit m i} \<longleftrightarrow> i \<in> (if odd m then {0} else {}) \<union> Suc ` {i. bit (m div 2) i}"
    by (cases i) (auto simp: bit_0 bit_Suc)
qed

lemma popcount_card:
  "0 \<le> m \<Longrightarrow> finite {i. bit m i} \<and> popcount m = card {i. bit m i}"
proof (induction m rule: popcount.induct)
  case (1 m)
  show ?case
  proof (cases "m \<le> 0")
    case True
    with "1.prems" have "m = 0" by simp
    then show ?thesis by (simp add: popcount.simps)
  next
    case False
    then have "0 \<le> m div 2" by simp
    with "1.IH" False have fin: "finite {i. bit (m div 2) i}"
      and pc: "popcount (m div 2) = card {i. bit (m div 2) i}"
      by simp_all
    have img: "card (Suc ` {i. bit (m div 2) i}) = card {i. bit (m div 2) i}"
      by (rule card_image) simp
    have finm: "finite {i. bit m i}"
      by (subst bit_set_step) (use fin in simp)
    have "card {i. bit m i} = (if odd m then 1 else 0) + card {i. bit (m div 2) i}"
      by (subst bit_set_step) (use fin img in \<open>auto simp: card_insert_if\<close>)
    moreover have "nat (m mod 2) = (if odd m then 1 else 0)"
      by (simp add: odd_iff_mod_2_eq_one)
    moreover have "popcount m = nat (m mod 2) + popcount (m div 2)"
      using False by (subst popcount.simps) simp
    ultimately show ?thesis using finm pc by simp
  qed
qed

lemma table_popcounts: "list_all (\<lambda>m. 2 \<le> popcount m \<and> popcount m \<le> 8) knight_table"
  by code_simp

lemma table_positive: "list_all (\<lambda>m. 0 < m) knight_table"
  by code_simp

lemma knight_table_length: "length knight_table = 64"
  by (simp add: knight_table_def)

lemma table_masks_literal: "table_masks = Inr knight_table"
  by (simp add: table_masks_eq table_masks_value)

lemma corner_bits: "bit (mask_of (knight_bits 0 0)) i = (i = 10 \<or> i = 17)"
  unfolding bit_knight_mask
  by (auto simp: lands_on_def knight_offsets_eval is_valid_square_def)

lemma edge_bits: "bit (mask_of (knight_bits 1 0)) i = (i = 2 \<or> i = 18 \<or> i = 25)"
  unfolding bit_knight_mask
  by (auto simp: lands_on_def knight_offsets_eval is_valid_square_def)

lemma corner_hex: "hex 0x20400 = ''0x20400''"
  by code_simp

lemma edge_popcount: "popcount (knight_table ! 8) = 3"
  by code_simp

section \<open>Hexadecimal text, joining and splitting\<close>

lemma hex_digit_table:
  "list_all (\<lambda>d. hex_value (hex_digit d) = d \<and> is_hex_char (hex_digit d)) [0..15]"
  by code_simp

lemma hex_digit_nonzero_table: "list_all (\<lambda>d. hex_digit d \<noteq> CHR ''0'') [1..15]"
  by code_simp

lemma hex_digit_facts:
  assumes "0 \<le> d" "d < 16"
  shows "hex_value (hex_digit d) = d" "is_hex_char (hex_digit d)"
proof -
  from assms have "d \<in> set [0..15]" by simp
  with hex_digit_table show "hex_value (hex_digit d) = d" "is_hex_char (hex_digit d)"
    unfolding list_all_iff by blast+
qed

lemma hex_digit_nonzero:
  assumes "0 < d" "d < 16"
  shows "hex_digit d \<noteq> CHR ''0''"
proof -
  from assms have "d \<in> set [1..15]" by simp
  with hex_digit_nonzero_table show ?thesis
    unfolding list_all_iff by blast
qed

lemma hex_digits_small: "n < 16 \<Longrightarrow> hex_digits n = [hex_digit n]"
  by (subst hex_digits.simps) simp

lemma hex_digits_large:
  "\<not> n < 16 \<Longrightarrow> hex_digits n = hex_digits (n div 16) @ [hex_digit (n mod 16)]"
  by (subst hex_digits.simps) simp

lemma hex_digits_value:
  "0 \<le> n \<Longrightarrow> foldl (\<lambda>acc c. 16 * acc + hex_value c) 0 (hex_digits n) = n"
proof (induction n rule: hex_digits.induct)
  case (1 n)
  show ?case
  proof (cases "n < 16")
    case True
    with "1.prems" show ?thesis
      by (simp add: hex_digits_small hex_digit_facts)
  next
    case False
    with "1.prems" have "0 \<le> n div 16" by simp
    with "1.IH" False
    have "foldl (\<lambda>acc c. 16 * acc + hex_value c) 0 (hex_digits (n div 16)) = n div 16"
      by simp
    moreover have "hex_value (hex_digit (n mod 16)) = n mod 16"
      by (rule hex_digit_facts) simp_all
    ultimately show ?thesis
      using False by (simp add: hex_digits_large)
  qed
qed

lemma hex_digits_chars:
  "0 \<le> n \<Longrightarrow> hex_digits n \<noteq> [] \<and> list_all is_hex_char (hex_digits n)"
proof (induction n rule: hex_digits.induct)
  case (1 n)
  show ?case
  proof (cases "n < 16")
    case True
    with "1.prems" show ?thesis
      by (simp add: hex_digits_small hex_digit_facts)
  next
    case False
    with "1.prems" have "0 \<le> n div 16" by simp
    with "1.IH" False have "list_all is_hex_char (hex_digits (n div 16))" by simp
    moreover have "is_hex_char (hex_digit (n mod 16))"
      by (rule hex_digit_facts) simp_all
    ultimately show ?thesis
      using False by (simp add: hex_digits_large)
  qed
qed

lemma hex_digits_no_leading_zero:
  "0 < n \<Longrightarrow> hd (hex_digits n) \<noteq> CHR ''0''"
proof (induction n rule: hex_digits.induct)
  case (1 n)
  show ?case
  proof (cases "n < 16")
    case True
    with "1.prems" show ?thesis
      by (simp add: hex_digits_small hex_digit_nonzero)
  next
    case False
    then have pos: "0 < n div 16" by simp
    with "1.IH" False have "hd (hex_digits (n div 16)) \<noteq> CHR ''0''" by simp
    moreover from pos have "hex_digits (n div 16) \<noteq> []"
      using hex_digits_chars [of "n div 16"] by simp
    ultimately show ?thesis
      using False by (simp add: hex_digits_large)
  qed
qed

lemma hex_is_literal: "0 \<le> n \<Longrightarrow> is_hex_literal (hex n)"
  using hex_digits_chars [of n] by (simp add: is_hex_literal_def hex_def)

lemma parse_hex_hex: "0 \<le> n \<Longrightarrow> parse_hex (hex n) = Some n"
  using hex_is_literal [of n] hex_digits_value [of n] by (simp add: parse_hex_def hex_def)

lemma hex_unpadded: "0 < n \<Longrightarrow> hex n ! 2 \<noteq> CHR ''0''"
  using hex_digits_no_leading_zero [of n] hex_digits_chars [of n]
  by (simp add: hex_def hd_conv_nth)

lemma hex_char_not_comma: "is_hex_char c \<Longrightarrow> c \<noteq> CHR '',''"
  by (auto simp: is_hex_char_def)

lemma hex_no_comma: "0 \<le> n \<Longrightarrow> CHR '','' \<notin> set (hex n)"
  using hex_digits_chars [of n] hex_char_not_comma
  by (auto simp: hex_def list_all_iff)

lemma hex_char_not_newline: "is_hex_char c \<Longrightarrow> c \<noteq> CHR 0x0A"
  by (auto simp: is_hex_char_def)

lemma hex_no_newline: "0 \<le> n \<Longrightarrow> CHR 0x0A \<notin> set (hex n)"
  using hex_digits_chars [of n] hex_char_not_newline
  by (auto simp: hex_def list_all_iff)

lemma split_from_token:
  "CHR '','' \<notin> set t \<Longrightarrow> split_from '', '' cur (t @ rest) = split_from '', '' (cur @ t) rest"
  by (induction t arbitrary: cur) auto

lemma split_from_separator:
  "split_from '', '' cur ('', '' @ rest) = cur # split_from '', '' [] rest"
  by simp

lemma split_join:
  "\<forall>t\<in>set (t0 # ts). CHR '','' \<notin> set t \<Longrightarrow>
   split_from '', '' cur (str_join '', '' (t0 # ts)) = (cur @ t0) # ts"
proof (induction ts arbitrary: cur t0)
  case Nil
  then show ?case
    using split_from_token [of t0 cur "[]"] by simp
next
  case (Cons t1 ts)
  have "split_from '', '' cur (str_join '', '' (t0 # t1 # ts)) =
        split_from '', '' cur (t0 @ ('', '' @ str_join '', '' (t1 # ts)))"
    by simp
  also have "\<dots> = split_from '', '' (cur @ t0) ('', '' @ str_join '', '' (t1 # ts))"
    using Cons.prems by (intro split_from_token) simp
  also have "\<dots> = (cur @ t0) # split_from '', '' [] (str_join '', '' (t1 # ts))"
    by (rule split_from_separator)
  also have "split_from '', '' [] (str_join '', '' (t1 # ts)) = ([] @ t1) # ts"
    using Cons.prems by (intro Cons.IH) simp
  finally show ?case by simp
qed

lemma str_split_join:
  assumes "ts \<noteq> []" "\<forall>t\<in>set ts. CHR '','' \<notin> set t"
  shows "str_split (str_join '', '' ts) '', '' = Inr ts"
proof -
  from assms(1) obtain t0 rest where ts: "ts = t0 # rest" by (cases ts) auto
  with assms(2) split_join [of t0 rest "[]"] show ?thesis
    by (simp add: str_split_def)
qed

lemma join_no_newline:
  "\<forall>t\<in>set ts. CHR 0x0A \<notin> set t \<Longrightarrow> CHR 0x0A \<notin> set (str_join '', '' ts)"
  by (induction "'', ''" ts rule: str_join.induct) auto

lemma generate_patterns_literal: "generate_patterns = Inr (map hex knight_table)"
proof -
  have "map list_to_hex table_patterns = map hex (map mask_of table_patterns)"
    by (simp add: list_to_hex_def mask_of_def)
  then show ?thesis
    by (simp only: generate_patterns_eq table_masks_value)
qed

lemma knight_table_positive: "i < 64 \<Longrightarrow> 0 < knight_table ! i"
  using table_positive by (simp add: list_all_length knight_table_length)

lemma knight_table_member_positive: "m \<in> set knight_table \<Longrightarrow> 0 < m"
  using table_positive by (simp add: list_all_iff)

lemma edge_hex: "hex 0x2040004 = ''0x2040004''"
  by code_simp

lemma edge_value: "knight_table ! 8 = 0x2040004"
  by (simp add: knight_table_def)

section \<open>Properties\<close>

text \<open>
  C1. For a source square \<open>(rank, file)\<close> on the board, the loop body builds a pattern
  without raising, and bit \<open>i\<close> of its mask, which is also the entry of the table at
  \<open>rank * 8 + file\<close> and the number \<^verbatim>\<open>list_to_hex\<close> prints, is set exactly when
  \<open>i\<close> is \<open>(rank + dr) * 8 + (file + df)\<close> for one of the eight knight offsets whose
  target lies on the board. No other bit is set.
\<close>

theorem C1_mask_bits:
  assumes "0 \<le> rank" "rank < 8" "0 \<le> file" "file < 8"
  shows "\<exists>pattern ms. square_pattern rank file = Inr pattern \<and>
           list_to_hex pattern = hex (mask_of pattern) \<and>
           table_masks = Inr ms \<and> ms ! nat (rank * 8 + file) = mask_of pattern \<and>
           (\<forall>i. bit (mask_of pattern) i =
              (\<exists>(dr, df)\<in>{(- 2, - 1), (- 2, 1), (2, - 1), (2, 1),
                           (- 1, - 2), (- 1, 2), (1, - 2), (1, 2)}.
                 0 \<le> rank + dr \<and> rank + dr < 8 \<and> 0 \<le> file + df \<and> file + df < 8 \<and>
                 int i = (rank + dr) * 8 + (file + df)))"
proof -
  let ?p = "knight_bits rank file"
  have idx: "nat (rank * 8 + file) = nat rank * 8 + nat file"
    using assms by (simp add: nat_add_distrib nat_mult_distrib)
  have "map mask_of table_patterns ! nat (rank * 8 + file) = mask_of ?p"
    using assms table_patterns_nth [of "nat rank" "nat file"]
    by (simp add: idx table_patterns_length)
  moreover have "bit (mask_of ?p) i =
      (\<exists>(dr, df)\<in>{(- 2, - 1), (- 2, 1), (2, - 1), (2, 1), (- 1, - 2), (- 1, 2), (1, - 2), (1, 2)}.
         0 \<le> rank + dr \<and> rank + dr < 8 \<and> 0 \<le> file + df \<and> file + df < 8 \<and>
         int i = (rank + dr) * 8 + (file + df))" for i
    unfolding bit_knight_mask knight_offsets_set [symmetric]
    using lands_on_less [of rank "file" knight_offsets i]
    by (auto simp: lands_on_set is_valid_square_def)
  ultimately show ?thesis
    by (simp add: square_pattern_eq table_masks_eq list_to_hex_def mask_of_def)
qed

text \<open>The theorem at the corner square \<open>(0, 0)\<close>.\<close>

theorem C1_mask_bits_witness:
  "(0::int) \<le> 0 \<and> (0::int) < 8 \<and>
   (\<exists>pattern. square_pattern 0 0 = Inr pattern \<and>
      bit (mask_of pattern) 10 \<and> bit (mask_of pattern) 17 \<and> \<not> bit (mask_of pattern) 0)"
proof -
  from C1_mask_bits [of 0 0] obtain pattern where
    p: "square_pattern 0 0 = Inr pattern" and
    bits: "\<And>i. bit (mask_of pattern) i =
       (\<exists>(dr, df)\<in>{(- 2, - 1), (- 2, 1), (2, - 1), (2, 1),
                    (- 1, - 2), (- 1, 2), (1, - 2), (1, 2)}.
          0 \<le> 0 + dr \<and> 0 + dr < 8 \<and> 0 \<le> 0 + df \<and> 0 + df < 8 \<and>
          int i = (0 + dr) * 8 + (0 + df))"
    by auto
  have "bit (mask_of pattern) 10" "bit (mask_of pattern) 17" "\<not> bit (mask_of pattern) 0"
    unfolding bits by simp_all
  with p show ?thesis by auto
qed

text \<open>
  C2. \<^verbatim>\<open>generate_patterns\<close> returns 64 entries, one per square in row-major order: the
  entry at \<open>rank * 8 + file\<close> is the one computed for the square \<open>(rank, file)\<close>. The
  entries are the masks in the text form \<^verbatim>\<open>hex\<close> gives them.
\<close>

theorem C2_row_major:
  "\<exists>tokens ms. generate_patterns = Inr tokens \<and> length tokens = 64 \<and>
      table_masks = Inr ms \<and> length ms = 64 \<and> tokens = map hex ms \<and>
      (\<forall>rank\<in>{0..7}. \<forall>file\<in>{0..7}. \<exists>pattern.
          square_pattern rank file = Inr pattern \<and>
          ms ! nat (rank * 8 + file) = mask_of pattern \<and>
          tokens ! nat (rank * 8 + file) = list_to_hex pattern)"
proof -
  have hex: "list_to_hex = (\<lambda>p. hex (mask_of p))"
    by (simp add: fun_eq_iff list_to_hex_def mask_of_def)
  have "table_patterns ! nat (rank * 8 + file) = knight_bits rank file"
    if "rank \<in> {0..7}" "file \<in> {0..7}" for rank :: int and "file" :: int
  proof -
    from that have bounds: "0 \<le> rank" "rank < 8" "0 \<le> file" "file < 8" by auto
    then have "nat (rank * 8 + file) = nat rank * 8 + nat file"
      by (simp add: nat_add_distrib nat_mult_distrib)
    with bounds table_patterns_nth [of "nat rank" "nat file"] show ?thesis by simp
  qed
  moreover have "nat (rank * 8 + file) < 64"
    if "rank \<in> {0..7}" "file \<in> {0..7}" for rank :: int and "file" :: int
    using that by auto
  ultimately show ?thesis
    by (simp add: generate_patterns_eq table_masks_eq table_patterns_length square_pattern_eq hex)
qed

text \<open>The theorem at the square \<open>(1, 0)\<close>, index 8.\<close>

theorem C2_row_major_witness:
  "(1::int) \<in> {0..7} \<and> (0::int) \<in> {0..7} \<and>
   (\<exists>tokens pattern. generate_patterns = Inr tokens \<and> square_pattern 1 0 = Inr pattern \<and>
      tokens ! 8 = list_to_hex pattern)"
proof -
  from C2_row_major obtain tokens ms where
    g: "generate_patterns = Inr tokens" and
    rows: "\<forall>rank\<in>{0..7}. \<forall>file\<in>{0..7}. \<exists>pattern.
          square_pattern rank file = Inr pattern \<and>
          ms ! nat (rank * 8 + file) = mask_of pattern \<and>
          tokens ! nat (rank * 8 + file) = list_to_hex pattern"
    by blast
  have mem: "(1::int) \<in> {0..7}" "(0::int) \<in> {0..7}" by simp_all
  with rows obtain pattern where
    "square_pattern 1 0 = Inr pattern" "tokens ! nat (1 * 8 + 0) = list_to_hex pattern"
    by blast
  with g mem show ?thesis by auto
qed

text \<open>
  C3. For every pair of integers, of any sign and size, \<^verbatim>\<open>is_valid_square\<close> answers true
  exactly when both lie in \<open>[0, 8)\<close>. The function is a comparison of unbounded integers:
  it has no failing branch, and the model is a total function into \<^typ>\<open>bool\<close>.
\<close>

theorem C3_is_valid_square_iff:
  "is_valid_square rank file = (0 \<le> rank \<and> rank < 8 \<and> 0 \<le> file \<and> file < 8)"
  by (simp add: is_valid_square_def)







text \<open>
  C7. Degree bounds: every mask of the table has at least 2 and at most 8 bits set.
  The masks are the numbers the strings of \<^verbatim>\<open>generate_patterns\<close> denote, and the
  count \<^const>\<open>popcount\<close> computes is the number of set bit positions.
\<close>

theorem C7_degree_bounds:
  "\<exists>ms tokens. generate_patterns = Inr tokens \<and> tokens = map hex ms \<and>
      table_masks = Inr ms \<and> length ms = 64 \<and>
      (\<forall>i<64. parse_hex (tokens ! i) = Some (ms ! i) \<and>
               2 \<le> popcount (ms ! i) \<and> popcount (ms ! i) \<le> 8 \<and>
               popcount (ms ! i) = card {j. bit (ms ! i) j})"
proof -
  have "parse_hex (map hex knight_table ! i) = Some (knight_table ! i) \<and>
        2 \<le> popcount (knight_table ! i) \<and> popcount (knight_table ! i) \<le> 8 \<and>
        popcount (knight_table ! i) = card {j. bit (knight_table ! i) j}" if "i < 64" for i
  proof -
    from that have pos: "0 < knight_table ! i" by (rule knight_table_positive)
    then have "popcount (knight_table ! i) = card {j. bit (knight_table ! i) j}"
      using popcount_card [of "knight_table ! i"] by simp
    moreover from that have "2 \<le> popcount (knight_table ! i) \<and> popcount (knight_table ! i) \<le> 8"
      using table_popcounts by (simp add: list_all_length knight_table_length)
    moreover from that pos have "parse_hex (map hex knight_table ! i) = Some (knight_table ! i)"
      by (simp add: knight_table_length parse_hex_hex)
    ultimately show ?thesis by simp
  qed
  then have "\<forall>i<64. parse_hex (map hex knight_table ! i) = Some (knight_table ! i) \<and>
        2 \<le> popcount (knight_table ! i) \<and> popcount (knight_table ! i) \<le> 8 \<and>
        popcount (knight_table ! i) = card {j. bit (knight_table ! i) j}"
    by blast
  with generate_patterns_literal table_masks_literal knight_table_length show ?thesis by blast
qed

text \<open>The theorem at square 27.\<close>

theorem C7_degree_bounds_witness:
  "(27::nat) < 64 \<and>
   (\<exists>ms tokens. generate_patterns = Inr tokens \<and> tokens = map hex ms \<and>
      table_masks = Inr ms \<and> parse_hex (tokens ! 27) = Some (ms ! 27) \<and>
      2 \<le> popcount (ms ! 27) \<and> popcount (ms ! 27) \<le> 8)"
proof -
  from C7_degree_bounds obtain ms tokens where
    gen: "generate_patterns = Inr tokens" "tokens = map hex ms" and
    ms: "table_masks = Inr ms" and
    deg: "\<forall>i<64. parse_hex (tokens ! i) = Some (ms ! i) \<and>
               2 \<le> popcount (ms ! i) \<and> popcount (ms ! i) \<le> 8 \<and>
               popcount (ms ! i) = card {j. bit (ms ! i) j}"
    by blast
  have lt: "(27::nat) < 64" by simp
  with deg have "parse_hex (tokens ! 27) = Some (ms ! 27) \<and>
      2 \<le> popcount (ms ! 27) \<and> popcount (ms ! 27) \<le> 8" by blast
  with gen ms lt show ?thesis by blast
qed

text \<open>
  C8. The corner: the mask at index 0 is \<open>0x20400\<close>, its set bits are exactly 10 and 17,
  and the first string \<^verbatim>\<open>generate_patterns\<close> returns is \<^verbatim>\<open>0x20400\<close>.
\<close>

theorem C8_corner_value:
  "\<exists>ms tokens. table_masks = Inr ms \<and> generate_patterns = Inr tokens \<and>
      ms ! 0 = 0x20400 \<and> (\<forall>i. bit (ms ! 0) i = (i = 10 \<or> i = 17)) \<and>
      tokens ! 0 = ''0x20400''"
proof -
  have pat: "table_patterns ! 0 = knight_bits 0 0"
    using table_patterns_nth [of 0 0] by simp
  have val: "mask_of (knight_bits 0 0) = 0x20400"
    using table_rank_0 by simp
  have "list_to_hex (knight_bits 0 0) = hex (mask_of (knight_bits 0 0))"
    by (simp add: list_to_hex_def mask_of_def)
  with val corner_hex have "list_to_hex (knight_bits 0 0) = ''0x20400''" by simp
  moreover have "\<forall>i. bit (mask_of (knight_bits 0 0)) i = (i = 10 \<or> i = 17)"
    using corner_bits by blast
  ultimately show ?thesis
    using val pat
    by (simp add: table_masks_eq generate_patterns_eq table_patterns_length)
qed

text \<open>
  C4, as stated, asks for four set bits in the mask at index 8. The entry
  \<^verbatim>\<open>generate_patterns\<close> returns there is \<^verbatim>\<open>0x2040004\<close>, the mask of the square
  \<open>(1, 0)\<close>, which has three.
\<close>

theorem C4_edge_popcount_counterexample:
  "generate_patterns = Inr (map hex (projr table_masks)) \<and>
   projr generate_patterns ! 8 = ''0x2040004'' \<and>
   parse_hex (projr generate_patterns ! 8) = Some (projr table_masks ! 8) \<and>
   popcount (projr table_masks ! 8) = 3 \<and>
   popcount (projr table_masks ! 8) \<noteq> 4"
proof -
  have tok: "map hex knight_table ! 8 = ''0x2040004''"
    using edge_hex edge_value by (simp add: knight_table_length)
  have "parse_hex (hex (knight_table ! 8)) = Some (knight_table ! 8)"
    by (rule parse_hex_hex) (simp add: edge_value)
  then have "parse_hex (map hex knight_table ! 8) = Some (knight_table ! 8)"
    by (simp add: knight_table_length)
  with tok edge_popcount show ?thesis
    by (simp add: generate_patterns_literal table_masks_literal)
qed

text \<open>
  C4, amended. In the generated table the entry at index 8 (rank 1, file 0) is
  \<^verbatim>\<open>0x2040004\<close>: the mask has exactly the bits 2, 18 and 25 set, and its number of set
  bits is 3.
\<close>

theorem C4_edge_value:
  "\<exists>ms tokens. generate_patterns = Inr tokens \<and> table_masks = Inr ms \<and>
      tokens ! 8 = hex (ms ! 8) \<and> tokens ! 8 = ''0x2040004'' \<and> ms ! 8 = 0x2040004 \<and>
      (\<forall>i. bit (ms ! 8) i = (i = 2 \<or> i = 18 \<or> i = 25)) \<and> popcount (ms ! 8) = 3"
proof -
  have pat: "table_patterns ! 8 = knight_bits 1 0"
    using table_patterns_nth [of 1 0] by simp
  have "knight_table ! 8 = mask_of (knight_bits 1 0)"
    using pat by (simp add: table_masks_value [symmetric] table_patterns_length)
  with edge_bits have bits: "\<forall>i. bit (knight_table ! 8) i = (i = 2 \<or> i = 18 \<or> i = 25)"
    by simp
  have tok: "map hex knight_table ! 8 = hex (knight_table ! 8)"
    by (simp add: knight_table_length)
  with edge_hex edge_value have lit: "map hex knight_table ! 8 = ''0x2040004''"
    by simp
  from generate_patterns_literal table_masks_literal tok lit edge_value bits edge_popcount
  show ?thesis by blast
qed

text \<open>
  C9. Output round trip. Standard output is one line and a line feed. Split at
  \<^verbatim>\<open>", "\<close>, the line gives exactly 64 tokens; each has the form \<^verbatim>\<open>0x[0-9a-f]+\<close> with no
  leading zero digit, and token \<open>i\<close> read as hexadecimal is the mask at index \<open>i\<close>.
\<close>

theorem C9_output_round_trip:
  "\<exists>ms line tokens. table_masks = Inr ms \<and>
      main_stdout = Inr (line @ [CHR 0x0A]) \<and> CHR 0x0A \<notin> set line \<and>
      str_split line '', '' = Inr tokens \<and> length tokens = 64 \<and>
      (\<forall>i<64. is_hex_literal (tokens ! i) \<and> tokens ! i ! 2 \<noteq> CHR ''0'' \<and>
               parse_hex (tokens ! i) = Some (ms ! i))"
proof -
  let ?tokens = "map hex knight_table"
  let ?line = "str_join '', '' ?tokens"
  have nonempty: "?tokens \<noteq> []"
    using knight_table_length by auto
  have commas: "\<forall>t\<in>set ?tokens. CHR '','' \<notin> set t"
    using knight_table_member_positive hex_no_comma by fastforce
  have newlines: "\<forall>t\<in>set ?tokens. CHR 0x0A \<notin> set t"
    using knight_table_member_positive hex_no_newline by fastforce
  have out: "main_stdout = Inr (?line @ [CHR 0x0A])"
    by (simp add: main_stdout_def generate_patterns_literal)
  have clean: "CHR 0x0A \<notin> set ?line"
    using newlines by (rule join_no_newline)
  have split: "str_split ?line '', '' = Inr ?tokens"
    using nonempty commas by (rule str_split_join)
  have len: "length ?tokens = 64"
    by (simp add: knight_table_length)
  have each: "\<forall>i<64. is_hex_literal (?tokens ! i) \<and> ?tokens ! i ! 2 \<noteq> CHR ''0'' \<and>
                parse_hex (?tokens ! i) = Some (knight_table ! i)"
  proof (intro allI impI)
    fix i :: nat assume i: "i < 64"
    then have pos: "0 < knight_table ! i" by (rule knight_table_positive)
    from i have tok: "?tokens ! i = hex (knight_table ! i)"
      by (simp add: knight_table_length)
    from pos show "is_hex_literal (?tokens ! i) \<and> ?tokens ! i ! 2 \<noteq> CHR ''0'' \<and>
                   parse_hex (?tokens ! i) = Some (knight_table ! i)"
      unfolding tok by (simp add: hex_is_literal hex_unpadded parse_hex_hex)
  qed
  from table_masks_literal out clean split len each show ?thesis by blast
qed

text \<open>The theorem at the first token.\<close>

theorem C9_output_round_trip_witness:
  "(0::nat) < 64 \<and>
   (\<exists>ms line tokens. table_masks = Inr ms \<and> main_stdout = Inr (line @ [CHR 0x0A]) \<and>
      str_split line '', '' = Inr tokens \<and>
      is_hex_literal (tokens ! 0) \<and> parse_hex (tokens ! 0) = Some (ms ! 0))"
proof -
  from C9_output_round_trip obtain ms line tokens where
    ms: "table_masks = Inr ms" and
    out: "main_stdout = Inr (line @ [CHR 0x0A])" and
    split: "str_split line '', '' = Inr tokens" and
    each: "\<forall>i<64. is_hex_literal (tokens ! i) \<and> tokens ! i ! 2 \<noteq> CHR ''0'' \<and>
               parse_hex (tokens ! i) = Some (ms ! i)"
    by blast
  have lt: "(0::nat) < 64" by simp
  with each have "is_hex_literal (tokens ! 0) \<and> parse_hex (tokens ! 0) = Some (ms ! 0)"
    by blast
  with ms out split lt show ?thesis by blast
qed

end
